theory Spec2Isabelle
  imports Complex_Main "HOL-Library.Word"
begin

unbundle bit_operations_syntax

section \<open>The joystick event loop of \<open>joystick_button_actions.py\<close>\<close>

text \<open>
  The program reads 8-byte records from a joystick device, decodes each one with
  \<^verbatim>\<open>struct.unpack('IhBB', evbuf)\<close> and runs a button branch, an axis branch
  and a dispatch step on it. The three module-level dictionaries are the state; the
  script directory and the operating system (what the test for a regular file answers,
  whether a child process can be started) are parameters.

  Python integers are unbounded, so the four decoded fields are \<open>int\<close>. The only
  floating-point values of the program are quotients \<open>n / 32767.0\<close> of an integer
  \<open>n\<close> and the constant \<open>0.8\<close>; they are only ever compared with \<open>0\<close> and with
  \<open>\<plusminus>0.8\<close>. IEEE division is correctly rounded and rounding is monotone, the
  quotient of a non-zero \<open>n\<close> never rounds to zero, and no quotient \<open>n / 32767\<close>
  lies within \<open>10\<^sup>-\<^sup>5\<close> of \<open>0.8\<close>, so these comparisons have the same outcome on the
  exact rationals, which is how they are modelled (\<open>rat\<close>).

  Verbose tracing only writes to the diagnostic stream, from values that are already
  checked to be present; it changes no state and no action, and is left out.
\<close>

subsection \<open>Module constants\<close>

definition axe_thresh_val :: rat where
  "axe_thresh_val = 8 / 10"

definition max_duration :: int where
  "max_duration = 1000"

subsection \<open>Decoding a record\<close>

type_synonym byte = "8 word"

datatype error = StructError | OSError

text \<open>The tuple \<open>time, value, type, number\<close> that the loop unpacks.\<close>

record event =
  ev_time :: int
  ev_value :: int
  ev_type :: int
  ev_number :: int

text \<open>
  Format \<open>IhBB\<close> in native mode: an unsigned 32-bit integer at offset 0, a signed
  16-bit integer at offset 4, two unsigned bytes at offsets 6 and 7; eight bytes, no
  padding. The byte order is the machine's, little-endian on the supported machines.
  A buffer of any other length raises \<open>struct.error\<close>.
\<close>

definition unpack_I :: "byte \<Rightarrow> byte \<Rightarrow> byte \<Rightarrow> byte \<Rightarrow> int" where
  "unpack_I b0 b1 b2 b3 = uint b0 + 256 * uint b1 + 65536 * uint b2 + 16777216 * uint b3"

definition unpack_h :: "byte \<Rightarrow> byte \<Rightarrow> int" where
  "unpack_h b0 b1 =
     (let u = uint b0 + 256 * uint b1 in if u < 32768 then u else u - 65536)"

definition unpack_B :: "byte \<Rightarrow> int" where
  "unpack_B b = uint b"

fun struct_unpack :: "byte list \<Rightarrow> error + event" where
  "struct_unpack [b0, b1, b2, b3, b4, b5, b6, b7] =
     Inr \<lparr>ev_time = unpack_I b0 b1 b2 b3, ev_value = unpack_h b4 b5,
          ev_type = unpack_B b6, ev_number = unpack_B b7\<rparr>"
| "struct_unpack _ = Inl StructError"

text \<open>
  The inverse direction, \<^verbatim>\<open>struct.pack('IhBB', time, value, type, number)\<close>,
  with the same layout. The program never calls it; it is the re-encoder that the
  round-trip property of the decoder speaks about. A field out of the range of its
  format raises \<open>struct.error\<close>.
\<close>

definition pack_I :: "int \<Rightarrow> byte list" where
  "pack_I n = [word_of_int n, word_of_int (n div 256),
               word_of_int (n div 65536), word_of_int (n div 16777216)]"

definition pack_h :: "int \<Rightarrow> byte list" where
  "pack_h n = (let u = n mod 65536 in [word_of_int u, word_of_int (u div 256)])"

definition pack_B :: "int \<Rightarrow> byte list" where
  "pack_B n = [word_of_int n]"

definition struct_pack :: "event \<Rightarrow> error + byte list" where
  "struct_pack ev =
     (if 0 \<le> ev_time ev \<and> ev_time ev < 4294967296
         \<and> - 32768 \<le> ev_value ev \<and> ev_value ev < 32768
         \<and> 0 \<le> ev_type ev \<and> ev_type ev < 256
         \<and> 0 \<le> ev_number ev \<and> ev_number ev < 256
      then Inr (pack_I (ev_time ev) @ pack_h (ev_value ev)
                @ pack_B (ev_type ev) @ pack_B (ev_number ev))
      else Inl StructError)"

subsection \<open>Decimal rendering of an integer\<close>

text \<open>Python's \<open>str\<close> on an \<open>int\<close>: decimal digits, a minus sign when negative.\<close>

definition digit_char :: "nat \<Rightarrow> char" where
  "digit_char d = ''0123456789'' ! d"

fun str_nat :: "nat \<Rightarrow> string" where
  "str_nat n = (if n < 10 then [digit_char n]
                else str_nat (n div 10) @ [digit_char (n mod 10)])"

declare str_nat.simps [simp del]

definition str :: "int \<Rightarrow> string" where
  "str i = (if i < 0 then CHR ''-'' # str_nat (nat (- i)) else str_nat (nat i))"

subsection \<open>State\<close>

record state =
  button_press_time :: "int \<rightharpoonup> int"
  axes_prev_time :: "int \<rightharpoonup> int"
  axes_prev_value :: "int \<rightharpoonup> rat"

definition init_state :: state where
  "init_state = \<lparr>button_press_time = Map.empty, axes_prev_time = Map.empty,
                 axes_prev_value = Map.empty\<rparr>"

subsection \<open>One iteration of the main loop\<close>

text \<open>
  Lines 117 and 128: \<open>duration = time - <the stored time>\<close>, on Python's unbounded
  integers.
\<close>

definition duration :: "int \<Rightarrow> int \<Rightarrow> int" where
  "duration time stored = time - stored"

text \<open>Lines 110 to 122: the button branch, on the state and the current \<open>action_fn\<close>.\<close>

definition button_branch :: "event \<Rightarrow> state \<times> string \<Rightarrow> state \<times> string" where
  "button_branch ev sa =
     (case sa of (s, action_fn) \<Rightarrow>
        if ev_type ev AND 1 \<noteq> 0 then
          (let button = ev_number ev in
           if ev_value ev \<noteq> 0 then
             (s\<lparr>button_press_time := (button_press_time s)(button \<mapsto> ev_time ev)\<rparr>,
              action_fn)
           else
             (case button_press_time s button of
                None \<Rightarrow> (s, action_fn)
              | Some t0 \<Rightarrow>
                  (if duration (ev_time ev) t0 < max_duration
                   then (s, ''on_button_'' @ str button @ ''_pressed'')
                   else (s, action_fn))))
        else (s, action_fn))"

text \<open>Line 126: the normalised value that the axis branch computes.\<close>

definition fvalue :: "event \<Rightarrow> rat" where
  "fvalue ev = (let axis = ev_number ev in of_int axis / 32767)"

text \<open>Lines 124 to 142: the axis branch.\<close>

definition axis_action :: "event \<Rightarrow> state \<Rightarrow> string \<Rightarrow> string" where
  "axis_action ev s action_fn =
     (let axis = ev_number ev in
      case (axes_prev_time s axis, axes_prev_value s axis) of
        (Some t0, Some v0) \<Rightarrow>
          (if fvalue ev = 0 \<and> duration (ev_time ev) t0 < max_duration then
             (if v0 < - axe_thresh_val then ''on_axis_'' @ str axis @ ''_negative''
              else if v0 > axe_thresh_val then ''on_axis_'' @ str axis @ ''_positive''
              else action_fn)
           else action_fn)
      | _ \<Rightarrow> action_fn)"

definition axis_branch :: "event \<Rightarrow> state \<times> string \<Rightarrow> state \<times> string" where
  "axis_branch ev sa =
     (case sa of (s, action_fn) \<Rightarrow>
        if ev_type ev AND 2 \<noteq> 0 then
          (let axis = ev_number ev in
           (s\<lparr>axes_prev_time := (axes_prev_time s)(axis \<mapsto> ev_time ev),
              axes_prev_value := (axes_prev_value s)(axis \<mapsto> fvalue ev)\<rparr>,
            axis_action ev s action_fn))
        else (s, action_fn))"

subsection \<open>The operating system\<close>

text \<open>
  What the dispatch step asks of the operating system. \<open>Path(script_file).is_file()\<close>
  answers whether the path is a regular file, or raises \<open>OSError\<close>: a path that
  is too long or a directory that may not be searched is an error, where a missing
  file is the answer \<open>False\<close>. \<open>subprocess.Popen([script_file], shell=True)\<close>
  starts a child through the shell and returns at once, or raises \<open>OSError\<close> when
  no child can be started. The calls on child processes are recorded: starting one,
  with its argument list and shell flag, and waiting for one, which \<open>subprocess\<close>
  offers and the program never does.
\<close>

datatype proc_call = Popen "string list" bool | Wait "string list"

record os =
  is_file :: "string \<Rightarrow> error + bool"
  popen :: "string list \<Rightarrow> bool \<Rightarrow> error option"

text \<open>
  Lines 144 to 149: the calls on child processes, and the exception that ends the
  step, if any.
\<close>

definition dispatch :: "string \<Rightarrow> os \<Rightarrow> string \<Rightarrow> proc_call list \<times> error option" where
  "dispatch scriptdir os action_fn =
     (if length action_fn > 0 then
        (let script_file = scriptdir @ ''/'' @ action_fn in
         case is_file os script_file of
           Inl e \<Rightarrow> ([], Some e)
         | Inr file \<Rightarrow>
             if file then ([Popen [script_file] True], popen os [script_file] True)
             else ([], None))
      else ([], None))"

text \<open>
  Lines 104 to 149 on a decoded record: the new state, the final \<open>action_fn\<close>, the
  calls on child processes and the exception raised, if any. An init record leaves
  the iteration at once.
\<close>

definition process_event ::
  "string \<Rightarrow> os \<Rightarrow> state \<Rightarrow> event
     \<Rightarrow> state \<times> string \<times> proc_call list \<times> error option" where
  "process_event scriptdir os s ev =
     (if ev_type ev AND 128 \<noteq> 0 then (s, [], [], None)
      else
        (case axis_branch ev (button_branch ev (s, [])) of
           (s', action_fn) \<Rightarrow> (s', action_fn, dispatch scriptdir os action_fn)))"

text \<open>
  Lines 101 to 149 on one read: an empty read does nothing, a read of another length
  than 8 raises in \<open>struct.unpack\<close>.
\<close>

definition loop_body ::
  "string \<Rightarrow> os \<Rightarrow> state \<Rightarrow> byte list
     \<Rightarrow> state \<times> string \<times> proc_call list \<times> error option" where
  "loop_body scriptdir os s evbuf =
     (if evbuf = [] then (s, [], [], None)
      else (case struct_unpack evbuf of
              Inl e \<Rightarrow> (s, [], [], Some e)
            | Inr ev \<Rightarrow> process_event scriptdir os s ev))"

subsection \<open>The loop on a sequence of reads\<close>

text \<open>
  The loop never returns by itself; \<open>main_loop\<close> runs it on the reads of a finite
  prefix of the device stream and gives the state after them, the action, the calls on
  child processes and the exception of each iteration, and the exception that ended
  the program, if any. An iteration that raises is the last one.
\<close>

fun main_loop ::
  "string \<Rightarrow> os \<Rightarrow> state \<Rightarrow> byte list list
     \<Rightarrow> state \<times> (string \<times> proc_call list \<times> error option) list \<times> error option" where
  "main_loop scriptdir os s [] = (s, [], None)"
| "main_loop scriptdir os s (evbuf # rest) =
     (case loop_body scriptdir os s evbuf of
        (s', action_fn, launched, raised) \<Rightarrow>
          (case raised of
             Some e \<Rightarrow> (s', [(action_fn, launched, raised)], raised)
           | None \<Rightarrow>
               (case main_loop scriptdir os s' rest of
                  (s'', outs, err) \<Rightarrow> (s'', (action_fn, launched, raised) # outs, err))))"

text \<open>The same loop on records that are already decoded.\<close>

fun run_events ::
  "string \<Rightarrow> os \<Rightarrow> state \<Rightarrow> event list
     \<Rightarrow> state \<times> (string \<times> proc_call list \<times> error option) list" where
  "run_events scriptdir os s [] = (s, [])"
| "run_events scriptdir os s (ev # rest) =
     (case process_event scriptdir os s ev of
        (s', action_fn, launched, raised) \<Rightarrow>
          (case raised of
             Some e \<Rightarrow> (s', [(action_fn, launched, raised)])
           | None \<Rightarrow>
               (case run_events scriptdir os s' rest of
                  (s'', outs) \<Rightarrow> (s'', (action_fn, launched, raised) # outs))))"

subsection \<open>Notions used in the properties\<close>

text \<open>
  What every state of a run satisfies: the value stored for an axis is the quotient of
  the axis index itself.
\<close>

definition axes_inv :: "state \<Rightarrow> bool" where
  "axes_inv s = (\<forall>k v. axes_prev_value s k = Some v \<longrightarrow> v = of_int k / 32767)"

definition axes_keys_bytes :: "state \<Rightarrow> bool" where
  "axes_keys_bytes s = (\<forall>k v. axes_prev_value s k = Some v \<longrightarrow> 0 \<le> k \<and> k \<le> 255)"

text \<open>An axis-kind record: kind bit 0x02 set and bit 0x80 clear.\<close>

definition axis_kind :: "int \<Rightarrow> bool" where
  "axis_kind t = (t AND 2 \<noteq> 0 \<and> t AND 128 = 0)"

text \<open>
  Two records that are the same except, possibly, for the value field of an axis-kind
  record; and the same with the axis-kind records that also carry the button bit
  excluded.
\<close>

definition same_but_axis_value :: "event \<Rightarrow> event \<Rightarrow> bool" where
  "same_but_axis_value e e' =
     (ev_time e = ev_time e' \<and> ev_type e = ev_type e' \<and> ev_number e = ev_number e'
      \<and> (ev_value e = ev_value e' \<or> axis_kind (ev_type e)))"

definition same_but_pure_axis_value :: "event \<Rightarrow> event \<Rightarrow> bool" where
  "same_but_pure_axis_value e e' =
     (ev_time e = ev_time e' \<and> ev_type e = ev_type e' \<and> ev_number e = ev_number e'
      \<and> (ev_value e = ev_value e' \<or> (axis_kind (ev_type e) \<and> ev_type e AND 1 = 0)))"

text \<open>A run in which no iteration raised.\<close>

definition completed :: "(string \<times> proc_call list \<times> error option) list \<Rightarrow> bool" where
  "completed outs = list_all (\<lambda>out. snd (snd out) = None) outs"

text \<open>The three action names.\<close>

definition on_button_pressed :: "int \<Rightarrow> string" where
  "on_button_pressed n = ''on_button_'' @ str n @ ''_pressed''"

definition on_axis_negative :: "int \<Rightarrow> string" where
  "on_axis_negative n = ''on_axis_'' @ str n @ ''_negative''"

definition on_axis_positive :: "int \<Rightarrow> string" where
  "on_axis_positive n = ''on_axis_'' @ str n @ ''_positive''"

text \<open>
  Operating systems for the examples: every path is a regular file; no path is one;
  exactly one path is one; the test fails on every path (a script directory that may
  not be searched); the test fails on the paths of 4096 characters and more, which
  name no file, and finds no file elsewhere. On all of them a child can be started.
\<close>

abbreviation every_file :: os where
  "every_file \<equiv> \<lparr>is_file = (\<lambda>p. Inr True), popen = (\<lambda>c sh. None)\<rparr>"



abbreviation no_access :: os where
  "no_access \<equiv> \<lparr>is_file = (\<lambda>p. Inl OSError), popen = (\<lambda>c sh. None)\<rparr>"



section \<open>The decoder\<close>

lemma uint_byte_range: "0 \<le> uint (b::byte) \<and> uint b < 256"
  using uint_lt2p [of b] by simp

lemma byte_256: "(256 :: byte) = 0"
  by simp

lemma byte_of_low: "(word_of_int (uint (b::byte) + 256 * k) :: byte) = b"
proof -
  have "(word_of_int (uint b + 256 * k) :: byte) = word_of_int (uint b) + 256 * word_of_int k"
    by simp
  then show ?thesis by (simp only: byte_256 mult_zero_left add_0_right word_of_int_uint)
qed

lemma div_low: "(uint (b::byte) + 256 * k) div 256 = k"
  using uint_byte_range [of b] by simp

lemma pack_unpack_I: "pack_I (unpack_I b0 b1 b2 b3) = [b0, b1, b2, b3]"
proof -
  let ?n = "unpack_I b0 b1 b2 b3"
  have n: "?n = uint b0 + 256 * (uint b1 + 256 * (uint b2 + 256 * uint b3))"
    by (simp add: unpack_I_def)
  have d1: "?n div 256 = uint b1 + 256 * (uint b2 + 256 * uint b3)"
    unfolding n by (rule div_low)
  have d2: "?n div 65536 = uint b2 + 256 * uint b3"
  proof -
    have "?n div 65536 = (?n div 256) div 256"
      by (simp add: div_mult2_eq [symmetric])
    then show ?thesis unfolding d1 by (simp only: div_low)
  qed
  have d3: "?n div 16777216 = uint b3"
  proof -
    have "?n div 16777216 = (?n div 65536) div 256"
      by (simp add: div_mult2_eq [symmetric])
    then show ?thesis unfolding d2 using uint_byte_range [of b2] by simp
  qed
  have w0: "(word_of_int ?n :: byte) = b0" unfolding n by (rule byte_of_low)
  have w1: "(word_of_int (?n div 256) :: byte) = b1" unfolding d1 by (rule byte_of_low)
  have w2: "(word_of_int (?n div 65536) :: byte) = b2" unfolding d2 by (rule byte_of_low)
  have w3: "(word_of_int (?n div 16777216) :: byte) = b3" unfolding d3 by simp
  show ?thesis unfolding pack_I_def using w0 w1 w2 w3 by simp
qed

lemma unpack_I_range: "0 \<le> unpack_I b0 b1 b2 b3 \<and> unpack_I b0 b1 b2 b3 < 4294967296"
  using uint_byte_range [of b0] uint_byte_range [of b1] uint_byte_range [of b2]
    uint_byte_range [of b3]
  by (simp add: unpack_I_def)

lemma unpack_h_range: "- 32768 \<le> unpack_h b0 b1 \<and> unpack_h b0 b1 < 32768"
proof -
  have "0 \<le> uint b0" "uint b0 < 256" "0 \<le> uint b1" "uint b1 < 256"
    using uint_byte_range by blast+
  then show ?thesis unfolding unpack_h_def Let_def by (split if_split) linarith
qed

lemma unpack_h_mod: "unpack_h b0 b1 mod 65536 = uint b0 + 256 * uint b1"
proof -
  let ?u = "uint b0 + 256 * uint b1"
  have r: "0 \<le> uint b0" "uint b0 < 256" "0 \<le> uint b1" "uint b1 < 256"
    using uint_byte_range by blast+
  then have u: "0 \<le> ?u" "?u < 65536" by linarith+
  have "(?u - 65536) mod 65536 = ?u mod 65536"
    by simp
  moreover have "?u mod 65536 = ?u"
    using u by simp
  ultimately show ?thesis
    unfolding unpack_h_def Let_def by (simp only: if_distrib [of "\<lambda>x. x mod 65536"] if_cancel)
qed

lemma pack_unpack_h: "pack_h (unpack_h b0 b1) = [b0, b1]"
  unfolding pack_h_def Let_def unpack_h_mod
  by (simp only: byte_of_low div_low) (simp add: div_low [of b1 0, simplified])

lemma unpack_B_range: "0 \<le> unpack_B b \<and> unpack_B b < 256"
  using uint_byte_range [of b] by (simp add: unpack_B_def)

lemma pack_unpack_B: "pack_B (unpack_B b) = [b]"
  by (simp add: pack_B_def unpack_B_def)

lemma length8:
  "length (bs :: 'a list) = 8 \<Longrightarrow> \<exists>b0 b1 b2 b3 b4 b5 b6 b7. bs = [b0, b1, b2, b3, b4, b5, b6, b7]"
  by (auto simp add: numeral_eq_Suc length_Suc_conv)

text \<open>
  C8. Every record of 8 bytes decodes, and packing the four decoded fields again with
  the layout of the decoder gives the same 8 bytes.
\<close>

theorem decode_roundtrip:
  "length bs = 8 \<Longrightarrow> \<exists>ev. struct_unpack bs = Inr ev \<and> struct_pack ev = Inr bs"
proof -
  assume "length bs = 8"
  then obtain b0 b1 b2 b3 b4 b5 b6 b7 where bs: "bs = [b0, b1, b2, b3, b4, b5, b6, b7]"
    using length8 by blast
  show ?thesis
    unfolding bs
    using unpack_I_range [of b0 b1 b2 b3] unpack_h_range [of b4 b5]
      unpack_B_range [of b6] unpack_B_range [of b7]
    by (simp add: struct_pack_def pack_unpack_I pack_unpack_h pack_unpack_B)
qed

theorem decode_roundtrip_witness:
  "length [244, 1, 0, 0, 208, 138, 2, 1 :: byte] = 8 \<and>
   (\<exists>ev. struct_unpack [244, 1, 0, 0, 208, 138, 2, 1] = Inr ev
         \<and> struct_pack ev = Inr [244, 1, 0, 0, 208, 138, 2, 1])"
  using decode_roundtrip [of "[244, 1, 0, 0, 208, 138, 2, 1]"] by simp

section \<open>Init records\<close>

text \<open>
  C3. A record whose kind byte has bit 0x80 set, whatever its other kind bits, its
  timestamp, its value and its index, leaves the three dictionaries as they are,
  produces no action, starts no process and raises nothing; so does the iteration that
  reads it.
\<close>

theorem init_event_noop:
  "ev_type ev AND 128 \<noteq> 0 \<Longrightarrow>
   process_event scriptdir os s ev = (s, [], [], None)
   \<and> (struct_unpack evbuf = Inr ev \<longrightarrow> loop_body scriptdir os s evbuf = (s, [], [], None))"
  by (auto simp add: process_event_def loop_body_def)

theorem init_event_noop_witness:
  "ev_type \<lparr>ev_time = 7, ev_value = 1, ev_type = 131, ev_number = 3\<rparr> AND 128 \<noteq> 0
   \<and> struct_unpack [7, 0, 0, 0, 1, 0, 131, 3]
       = Inr \<lparr>ev_time = 7, ev_value = 1, ev_type = 131, ev_number = 3\<rparr>
   \<and> process_event ''/home/pi'' every_file (init_state\<lparr>button_press_time := [3 \<mapsto> 0]\<rparr>)
       \<lparr>ev_time = 7, ev_value = 1, ev_type = 131, ev_number = 3\<rparr>
       = (init_state\<lparr>button_press_time := [3 \<mapsto> 0]\<rparr>, [], [], None)
   \<and> loop_body ''/home/pi'' every_file (init_state\<lparr>button_press_time := [3 \<mapsto> 0]\<rparr>)
       [7, 0, 0, 0, 1, 0, 131, 3]
       = (init_state\<lparr>button_press_time := [3 \<mapsto> 0]\<rparr>, [], [], None)"
proof -
  let ?ev = "\<lparr>ev_time = 7, ev_value = 1, ev_type = 131, ev_number = 3\<rparr>"
  have k: "ev_type ?ev AND 128 \<noteq> 0" by simp
  have u: "struct_unpack [7, 0, 0, 0, 1, 0, 131, 3] = Inr ?ev"
    by (simp add: unpack_I_def unpack_h_def unpack_B_def)
  show ?thesis
    using init_event_noop [OF k, of "''/home/pi''" every_file
        "init_state\<lparr>button_press_time := [3 \<mapsto> 0]\<rparr>" "[7, 0, 0, 0, 1, 0, 131, 3]"] k u
    by blast
qed

section \<open>The invariant of the axis dictionary\<close>

lemma axes_inv_init: "axes_inv init_state"
  by (simp add: axes_inv_def init_state_def)

lemma button_branch_axes:
  "axes_prev_value (fst (button_branch ev (s, a))) = axes_prev_value s"
  "axes_prev_time (fst (button_branch ev (s, a))) = axes_prev_time s"
  by (simp_all add: button_branch_def Let_def split: option.split)

lemma button_branch_inv: "axes_inv s \<Longrightarrow> axes_inv (fst (button_branch ev (s, a)))"
  by (simp add: axes_inv_def button_branch_axes)

lemma fvalue_zero: "(fvalue ev = 0) = (ev_number ev = 0)"
  by (simp add: fvalue_def)

lemma axis_action_inv: "axes_inv s \<Longrightarrow> axis_action ev s a = a"
proof -
  assume inv: "axes_inv s"
  show ?thesis
  proof (cases "axes_prev_value s (ev_number ev)")
    case None
    then show ?thesis by (simp add: axis_action_def Let_def split: option.split)
  next
    case (Some v0)
    with inv have v0: "v0 = of_int (ev_number ev) / 32767"
      by (simp add: axes_inv_def)
    show ?thesis
      using Some v0
      by (simp add: axis_action_def Let_def fvalue_zero axe_thresh_val_def split: option.split)
  qed
qed

lemma axis_branch_inv: "axes_inv s \<Longrightarrow> axes_inv (fst (axis_branch ev (s, a)))"
  by (simp add: axes_inv_def axis_branch_def Let_def fvalue_def)

lemma axis_branch_action_inv: "axes_inv s \<Longrightarrow> snd (axis_branch ev (s, a)) = a"
  by (simp add: axis_branch_def Let_def axis_action_inv)

lemma process_event_inv: "axes_inv s \<Longrightarrow> axes_inv (fst (process_event d os s ev))"
proof -
  assume inv: "axes_inv s"
  obtain s1 a1 where b: "button_branch ev (s, []) = (s1, a1)" by (cases "button_branch ev (s, [])")
  with button_branch_inv [OF inv, of ev "[]"] have "axes_inv s1" by simp
  then have "axes_inv (fst (axis_branch ev (s1, a1)))" by (rule axis_branch_inv)
  with inv b show ?thesis
    by (simp add: process_event_def case_prod_beta)
qed

lemma process_event_action_inv:
  assumes "axes_inv s" and "ev_type ev AND 128 = 0"
  shows "fst (snd (process_event d os s ev)) = snd (button_branch ev (s, []))"
proof -
  obtain s1 a1 where b: "button_branch ev (s, []) = (s1, a1)" by (cases "button_branch ev (s, [])")
  with button_branch_inv [OF assms(1), of ev "[]"] have "axes_inv s1" by simp
  then have "snd (axis_branch ev (s1, a1)) = a1" by (rule axis_branch_action_inv)
  with assms(2) b show ?thesis
    by (simp add: process_event_def case_prod_beta)
qed

lemma run_events_Cons:
  "run_events d os s (ev # evs) =
     (if snd (snd (snd (process_event d os s ev))) = None
      then (fst (run_events d os (fst (process_event d os s ev)) evs),
            snd (process_event d os s ev) # snd (run_events d os (fst (process_event d os s ev)) evs))
      else (fst (process_event d os s ev), [snd (process_event d os s ev)]))"
proof -
  obtain s' a ls r where p: "process_event d os s ev = (s', a, ls, r)"
    by (cases "process_event d os s ev") auto
  show ?thesis by (cases r) (simp_all add: p case_prod_beta)
qed

declare run_events.simps(2) [simp del]

lemma run_events_inv: "axes_inv s \<Longrightarrow> axes_inv (fst (run_events d os s evs))"
proof (induction evs arbitrary: s)
  case Nil
  then show ?case by simp
next
  case (Cons ev evs)
  have i: "axes_inv (fst (process_event d os s ev))" using Cons.prems by (rule process_event_inv)
  then have "axes_inv (fst (run_events d os (fst (process_event d os s ev)) evs))"
    by (rule Cons.IH)
  with i show ?case by (simp add: run_events_Cons)
qed

lemma reachable_inv: "axes_inv (fst (run_events d os init_state evs))"
  by (rule run_events_inv [OF axes_inv_init])

lemma button_release_action:
  assumes "ev_type ev AND 1 \<noteq> 0" and "ev_value ev = 0"
    and "button_press_time s (ev_number ev) = Some t0"
  shows "snd (button_branch ev (s, [])) =
           (if duration (ev_time ev) t0 < max_duration then on_button_pressed (ev_number ev) else [])"
  using assms by (simp add: button_branch_def Let_def on_button_pressed_def)

lemma on_button_pressed_nonempty: "on_button_pressed n \<noteq> []"
  by (simp add: on_button_pressed_def)



lemmas eval_defs = process_event_def button_branch_def axis_branch_def axis_action_def
  fvalue_def dispatch_def init_state_def max_duration_def duration_def axe_thresh_val_def
  str_def str_nat.simps digit_char_def run_events_Cons

section \<open>The button branch\<close>

text \<open>
  C2. In every state of a run, for a release record (kind bit 0x01 set, bit 0x80 clear,
  value 0) of a button with a recorded press time, the action of the iteration is
  \<open>on_button_<index>_pressed\<close> exactly when the computed duration is below
  \<open>max_duration = 1000\<close>, and is empty otherwise; a press of button 3 at 0 and a
  release at 999 give \<open>on_button_3_pressed\<close>, a release at 1000 gives no action.
\<close>

theorem short_press_iff_within_budget:
  assumes "s = fst (run_events scriptdir os init_state evs)"
    and "ev_type ev AND 128 = 0" and "ev_type ev AND 1 \<noteq> 0" and "ev_value ev = 0"
    and "button_press_time s (ev_number ev) = Some t0"
  shows "(fst (snd (process_event scriptdir os s ev)) = on_button_pressed (ev_number ev))
           = (duration (ev_time ev) t0 < max_duration)
       \<and> (fst (snd (process_event scriptdir os s ev)) = [])
           = (\<not> duration (ev_time ev) t0 < max_duration)
       \<and> duration (ev_time ev) t0 = ev_time ev - t0
       \<and> max_duration = 1000
       \<and> map fst (snd (run_events scriptdir os init_state
            [\<lparr>ev_time = 0, ev_value = 1, ev_type = 1, ev_number = 3\<rparr>,
             \<lparr>ev_time = 999, ev_value = 0, ev_type = 1, ev_number = 3\<rparr>]))
           = [[], ''on_button_3_pressed'']
       \<and> map fst (snd (run_events scriptdir os init_state
            [\<lparr>ev_time = 0, ev_value = 1, ev_type = 1, ev_number = 3\<rparr>,
             \<lparr>ev_time = 1000, ev_value = 0, ev_type = 1, ev_number = 3\<rparr>]))
           = [[], []]"
proof -
  have inv: "axes_inv s" unfolding assms(1) by (rule reachable_inv)
  have a: "fst (snd (process_event scriptdir os s ev)) =
      (if duration (ev_time ev) t0 < max_duration then on_button_pressed (ev_number ev) else [])"
    using process_event_action_inv [OF inv assms(2)] button_release_action [OF assms(3-5)]
    by simp
  have r1: "map fst (snd (run_events scriptdir os init_state
            [\<lparr>ev_time = 0, ev_value = 1, ev_type = 1, ev_number = 3\<rparr>,
             \<lparr>ev_time = 999, ev_value = 0, ev_type = 1, ev_number = 3\<rparr>]))
           = [[], ''on_button_3_pressed'']"
    by (simp add: eval_defs)
  have r2: "map fst (snd (run_events scriptdir os init_state
            [\<lparr>ev_time = 0, ev_value = 1, ev_type = 1, ev_number = 3\<rparr>,
             \<lparr>ev_time = 1000, ev_value = 0, ev_type = 1, ev_number = 3\<rparr>]))
           = [[], []]"
    by (simp add: eval_defs)
  show ?thesis
    using a r1 r2 on_button_pressed_nonempty [of "ev_number ev"]
    by (simp add: duration_def max_duration_def)
qed

theorem short_press_iff_within_budget_witness:
  "fst (run_events ''/home/pi'' every_file init_state
      [\<lparr>ev_time = 0, ev_value = 1, ev_type = 1, ev_number = 3\<rparr>])
     = init_state\<lparr>button_press_time := [3 \<mapsto> 0]\<rparr>
   \<and> button_press_time (init_state\<lparr>button_press_time := [3 \<mapsto> 0]\<rparr>) 3 = Some 0
   \<and> fst (snd (process_event ''/home/pi'' every_file (init_state\<lparr>button_press_time := [3 \<mapsto> 0]\<rparr>)
        \<lparr>ev_time = 999, ev_value = 0, ev_type = 1, ev_number = 3\<rparr>)) = on_button_pressed 3
   \<and> fst (snd (process_event ''/home/pi'' every_file (init_state\<lparr>button_press_time := [3 \<mapsto> 0]\<rparr>)
        \<lparr>ev_time = 1000, ev_value = 0, ev_type = 1, ev_number = 3\<rparr>)) = []"
proof -
  let ?s = "init_state\<lparr>button_press_time := [3 \<mapsto> 0]\<rparr>"
  let ?press = "\<lparr>ev_time = 0, ev_value = 1, ev_type = 1, ev_number = 3\<rparr>"
  have s: "?s = fst (run_events ''/home/pi'' every_file init_state [?press])"
    by (simp add: eval_defs)
  have b: "button_press_time ?s 3 = Some 0" by simp
  note t1 = short_press_iff_within_budget [of ?s "''/home/pi''" every_file "[?press]"
      "\<lparr>ev_time = 999, ev_value = 0, ev_type = 1, ev_number = 3\<rparr>" 0, OF s]
  note t2 = short_press_iff_within_budget [of ?s "''/home/pi''" every_file "[?press]"
      "\<lparr>ev_time = 1000, ev_value = 0, ev_type = 1, ev_number = 3\<rparr>" 0, OF s]
  have c1: "fst (snd (process_event ''/home/pi'' every_file ?s
        \<lparr>ev_time = 999, ev_value = 0, ev_type = 1, ev_number = 3\<rparr>)) = on_button_pressed 3"
    using t1 by (simp add: duration_def max_duration_def)
  have c2: "fst (snd (process_event ''/home/pi'' every_file ?s
        \<lparr>ev_time = 1000, ev_value = 0, ev_type = 1, ev_number = 3\<rparr>)) = []"
    using t2 by (simp add: duration_def max_duration_def)
  show ?thesis using s [symmetric] b c1 c2 by simp
qed

lemma button_branch_record:
  "button_press_time (fst (button_branch ev (s, a))) =
     (if ev_type ev AND 1 \<noteq> 0 \<and> ev_value ev \<noteq> 0
      then (button_press_time s)(ev_number ev \<mapsto> ev_time ev) else button_press_time s)"
  by (simp add: button_branch_def Let_def split: option.split)

lemma axis_branch_record:
  "button_press_time (fst (axis_branch ev (s, a))) = button_press_time s"
  by (simp add: axis_branch_def Let_def)

lemma process_event_record:
  "button_press_time (fst (process_event d os s ev)) =
     (if ev_type ev AND 128 = 0 \<and> ev_type ev AND 1 \<noteq> 0 \<and> ev_value ev \<noteq> 0
      then (button_press_time s)(ev_number ev \<mapsto> ev_time ev) else button_press_time s)"
proof -
  obtain s1 a1 where b: "button_branch ev (s, []) = (s1, a1)" by (cases "button_branch ev (s, [])")
  have "button_press_time (fst (axis_branch ev (s1, a1))) = button_press_time s1"
    by (rule axis_branch_record)
  moreover have "button_press_time s1 =
     (if ev_type ev AND 1 \<noteq> 0 \<and> ev_value ev \<noteq> 0
      then (button_press_time s)(ev_number ev \<mapsto> ev_time ev) else button_press_time s)"
    using button_branch_record [of ev s "[]"] b by simp
  ultimately show ?thesis using b
    by (simp add: process_event_def case_prod_beta)
qed

lemma button_press_action:
  "ev_value ev \<noteq> 0 \<Longrightarrow> snd (button_branch ev (s, a)) = a"
  by (simp add: button_branch_def Let_def)

lemma button_unrecorded_action:
  "button_press_time s (ev_number ev) = None \<Longrightarrow> snd (button_branch ev (s, a)) = a"
  by (simp add: button_branch_def Let_def)

lemma button_clear_action:
  "ev_type ev AND 1 = 0 \<Longrightarrow> button_branch ev sa = sa"
  by (simp add: button_branch_def split: prod.split)


section \<open>The duration\<close>

text \<open>
  C4. The claim is that the duration of both branches is the difference modulo
  \<open>2\<^sup>3\<^sup>2\<close>, so that a gesture is classified rightly when the device clock wraps
  between its two records. The code subtracts unbounded integers (lines 117 and 128).
  A press of button 3 at 4294967295 and its release at 5000 are 5001 ms apart on the
  wrapping clock, more than \<open>max_duration\<close>; the code computes the duration
  -4294962295 and emits \<open>on_button_3_pressed\<close>, where the program's own help text
  says that no script runs for a press of more than \<open>max_duration\<close> ms.
\<close>

theorem wrapped_clock_long_press_emits:
  "duration 5000 4294967295 = - 4294962295
   \<and> (5000 - 4294967295) mod 4294967296 = (5001 :: int)
   \<and> duration 5000 4294967295 \<noteq> (5000 - 4294967295) mod 4294967296
   \<and> \<not> ((5000 - 4294967295) mod 4294967296 < max_duration)
   \<and> duration 5000 4294967295 < max_duration
   \<and> map fst (snd (run_events scriptdir os init_state
        [\<lparr>ev_time = 4294967295, ev_value = 1, ev_type = 1, ev_number = 3\<rparr>,
         \<lparr>ev_time = 5000, ev_value = 0, ev_type = 1, ev_number = 3\<rparr>]))
       = [[], ''on_button_3_pressed'']"
  by (simp add: eval_defs)

section \<open>The axis branch\<close>

text \<open>
  C1. The claim is that the axis branch normalises the value field, so that axis 1 with
  value -30000 at time 0 and value 0 at time 500 gives \<open>on_axis_1_negative\<close>. On
  the code this sequence gives no action: line 126 divides the axis index, not the
  value, so the first record stores \<open>1 / 32767\<close> and the second one computes a
  non-zero \<open>fvalue\<close> again.
\<close>

theorem axis_snapback_emits_nothing:
  "map fst (snd (run_events scriptdir os init_state
      [\<lparr>ev_time = 0, ev_value = - 30000, ev_type = 2, ev_number = 1\<rparr>,
       \<lparr>ev_time = 500, ev_value = 0, ev_type = 2, ev_number = 1\<rparr>])) = [[], []]
   \<and> fvalue \<lparr>ev_time = 0, ev_value = - 30000, ev_type = 2, ev_number = 1\<rparr> = 1 / 32767
   \<and> fvalue \<lparr>ev_time = 500, ev_value = 0, ev_type = 2, ev_number = 1\<rparr> \<noteq> 0
   \<and> axes_prev_value (fst (run_events scriptdir os init_state
      [\<lparr>ev_time = 0, ev_value = - 30000, ev_type = 2, ev_number = 1\<rparr>])) 1 = Some (1 / 32767)"
  by (simp add: eval_defs)

text \<open>
  C6. The claim is that the first record of an axis gives no action and establishes, as
  the state of the axis, the time of the record and its normalised value, \<open>fvalue =
  value / 32767\<close>. On the code the first record of axis 1, with value -30000 at time
  0, gives no action and stores the time 0, but the value it stores is \<open>1 / 32767\<close>,
  the quotient of the axis index (line 126), where the claim has \<open>-30000 / 32767\<close>.
\<close>

theorem first_axis_record_stores_index:
  "process_event scriptdir os init_state
      \<lparr>ev_time = 0, ev_value = - 30000, ev_type = 2, ev_number = 1\<rparr>
     = (\<lparr>button_press_time = Map.empty, axes_prev_time = [1 \<mapsto> 0],
         axes_prev_value = [1 \<mapsto> 1 / 32767]\<rparr>, [], [], None)
   \<and> fvalue \<lparr>ev_time = 0, ev_value = - 30000, ev_type = 2, ev_number = 1\<rparr> = 1 / 32767
   \<and> (1 / 32767 :: rat) \<noteq> - 30000 / 32767"
  by (simp add: eval_defs)

section \<open>The press record\<close>

text \<open>
  C5. The claim is that a release clears the press record, so that a second release with
  no press in between emits nothing. The record is never removed: after a press of
  button 3 at 0, the releases at 100 and at 200 both emit \<open>on_button_3_pressed\<close>, and
  the press time is still recorded afterwards.
\<close>

theorem release_twice_counterexample:
  "snd (run_events ''/home/pi'' every_file init_state
      [\<lparr>ev_time = 0, ev_value = 1, ev_type = 1, ev_number = 3\<rparr>,
       \<lparr>ev_time = 100, ev_value = 0, ev_type = 1, ev_number = 3\<rparr>,
       \<lparr>ev_time = 200, ev_value = 0, ev_type = 1, ev_number = 3\<rparr>])
     = [([], [], None),
        (''on_button_3_pressed'', [Popen [''/home/pi/on_button_3_pressed''] True], None),
        (''on_button_3_pressed'', [Popen [''/home/pi/on_button_3_pressed''] True], None)]
   \<and> button_press_time (fst (run_events ''/home/pi'' every_file init_state
      [\<lparr>ev_time = 0, ev_value = 1, ev_type = 1, ev_number = 3\<rparr>,
       \<lparr>ev_time = 100, ev_value = 0, ev_type = 1, ev_number = 3\<rparr>,
       \<lparr>ev_time = 200, ev_value = 0, ev_type = 1, ev_number = 3\<rparr>])) 3 = Some 0"
  by (simp add: eval_defs)

text \<open>
  C5, amended. In every state of a run, for a button record (kind bit 0x01 set, bit
  0x80 clear): a press stores its time for the button and emits no action; a release
  leaves every press record as it is; a release of a button with no record emits no
  action; a release of a button with a record emits \<open>on_button_<index>_pressed\<close>
  exactly when its own duration since the recorded press is below \<open>max_duration\<close>,
  whether or not an earlier release has already used that record. No record of the
  program ever removes a press record.
\<close>

theorem press_record_is_kept:
  assumes "s = fst (run_events scriptdir os init_state evs)"
    and "ev_type ev AND 128 = 0" and "ev_type ev AND 1 \<noteq> 0"
  shows "(ev_value ev \<noteq> 0 \<longrightarrow>
            button_press_time (fst (process_event scriptdir os s ev))
              = (button_press_time s)(ev_number ev \<mapsto> ev_time ev)
            \<and> fst (snd (process_event scriptdir os s ev)) = [])
       \<and> (ev_value ev = 0 \<longrightarrow>
            button_press_time (fst (process_event scriptdir os s ev)) = button_press_time s
            \<and> (button_press_time s (ev_number ev) = None
                 \<longrightarrow> fst (snd (process_event scriptdir os s ev)) = [])
            \<and> (\<forall>t0. button_press_time s (ev_number ev) = Some t0
                 \<longrightarrow> fst (snd (process_event scriptdir os s ev))
                      = (if duration (ev_time ev) t0 < max_duration
                         then on_button_pressed (ev_number ev) else [])))
       \<and> (\<forall>e. dom (button_press_time s)
                 \<subseteq> dom (button_press_time (fst (process_event scriptdir os s e))))"
proof -
  have inv: "axes_inv s" unfolding assms(1) by (rule reachable_inv)
  note act = process_event_action_inv [OF inv assms(2), of scriptdir os]
  have press: "ev_value ev \<noteq> 0 \<longrightarrow>
            button_press_time (fst (process_event scriptdir os s ev))
              = (button_press_time s)(ev_number ev \<mapsto> ev_time ev)
            \<and> fst (snd (process_event scriptdir os s ev)) = []"
    using assms(2,3) act by (simp add: process_event_record button_press_action)
  have rel1: "ev_value ev = 0 \<longrightarrow>
      button_press_time (fst (process_event scriptdir os s ev)) = button_press_time s"
    by (simp add: process_event_record)
  have rel2: "button_press_time s (ev_number ev) = None
                 \<longrightarrow> fst (snd (process_event scriptdir os s ev)) = []"
    using act by (simp add: button_unrecorded_action)
  have rel3: "ev_value ev = 0 \<longrightarrow> (\<forall>t0. button_press_time s (ev_number ev) = Some t0
                 \<longrightarrow> fst (snd (process_event scriptdir os s ev))
                      = (if duration (ev_time ev) t0 < max_duration
                         then on_button_pressed (ev_number ev) else []))"
    using act assms(3) by (simp add: button_release_action)
  have keep: "\<forall>e. dom (button_press_time s)
                 \<subseteq> dom (button_press_time (fst (process_event scriptdir os s e)))"
    by (auto simp add: process_event_record)
  show ?thesis using press rel1 rel2 rel3 keep by simp
qed

theorem press_record_is_kept_witness:
  "fst (run_events ''/home/pi'' every_file init_state
      [\<lparr>ev_time = 0, ev_value = 1, ev_type = 1, ev_number = 3\<rparr>,
       \<lparr>ev_time = 100, ev_value = 0, ev_type = 1, ev_number = 3\<rparr>])
     = init_state\<lparr>button_press_time := [3 \<mapsto> 0]\<rparr>
   \<and> ev_type \<lparr>ev_time = 200, ev_value = 0, ev_type = 1, ev_number = 3\<rparr> AND 128 = 0
   \<and> ev_type \<lparr>ev_time = 200, ev_value = 0, ev_type = 1, ev_number = 3\<rparr> AND 1 \<noteq> 0
   \<and> button_press_time (fst (process_event ''/home/pi'' every_file
        (init_state\<lparr>button_press_time := [3 \<mapsto> 0]\<rparr>)
        \<lparr>ev_time = 200, ev_value = 0, ev_type = 1, ev_number = 3\<rparr>)) = [3 \<mapsto> 0]
   \<and> fst (snd (process_event ''/home/pi'' every_file
        (init_state\<lparr>button_press_time := [3 \<mapsto> 0]\<rparr>)
        \<lparr>ev_time = 200, ev_value = 0, ev_type = 1, ev_number = 3\<rparr>)) = on_button_pressed 3"
proof -
  let ?s = "init_state\<lparr>button_press_time := [3 \<mapsto> 0]\<rparr>"
  let ?evs = "[\<lparr>ev_time = 0, ev_value = 1, ev_type = 1, ev_number = 3\<rparr>,
       \<lparr>ev_time = 100, ev_value = 0, ev_type = 1, ev_number = 3\<rparr>]"
  let ?ev = "\<lparr>ev_time = 200, ev_value = 0, ev_type = 1, ev_number = 3\<rparr>"
  have s: "?s = fst (run_events ''/home/pi'' every_file init_state ?evs)"
    by (simp add: eval_defs)
  have k1: "ev_type ?ev AND 128 = 0" by simp
  have k2: "ev_type ?ev AND 1 \<noteq> 0" by simp
  have b: "button_press_time ?s = [3 \<mapsto> 0]" by (simp add: init_state_def)
  show ?thesis
    using press_record_is_kept [OF s k1 k2] s [symmetric] b
    by (simp add: duration_def max_duration_def)
qed

section \<open>Dispatch\<close>




section \<open>No axis action\<close>

lemma button_branch_action_shape:
  "snd (button_branch ev (s, [])) = [] \<or> snd (button_branch ev (s, [])) = on_button_pressed (ev_number ev)"
  by (simp add: button_branch_def Let_def on_button_pressed_def split: option.split)

lemma process_event_action_shape:
  assumes "axes_inv s"
  shows "fst (snd (process_event d os s ev)) = []
       \<or> fst (snd (process_event d os s ev)) = on_button_pressed (ev_number ev)"
proof (cases "ev_type ev AND 128 = 0")
  case True
  then show ?thesis
    using process_event_action_inv [OF assms True, of d os] button_branch_action_shape [of ev s]
    by simp
next
  case False
  then show ?thesis by (simp add: process_event_def)
qed

lemma not_axis_name:
  "on_button_pressed n \<noteq> on_axis_negative m" "on_button_pressed n \<noteq> on_axis_positive m"
  "[] \<noteq> on_axis_negative m" "[] \<noteq> on_axis_positive m"
  by (simp_all add: on_button_pressed_def on_axis_negative_def on_axis_positive_def)

lemma process_event_no_axis_action:
  assumes "axes_inv s"
  shows "fst (snd (process_event d os s ev)) \<noteq> on_axis_negative n
       \<and> fst (snd (process_event d os s ev)) \<noteq> on_axis_positive n"
  using process_event_action_shape [OF assms, of d os ev]
    not_axis_name(1,2) [of "ev_number ev" n] not_axis_name(3,4) [of n]
  by auto

lemma run_events_no_axis_action:
  "axes_inv s \<Longrightarrow> (a, rest) \<in> set (snd (run_events d os s evs))
   \<Longrightarrow> a \<noteq> on_axis_negative n \<and> a \<noteq> on_axis_positive n"
proof (induction evs arbitrary: s)
  case Nil
  then show ?case by simp
next
  case (Cons ev evs)
  let ?p = "process_event d os s ev"
  have inv': "axes_inv (fst ?p)" using Cons.prems(1) by (rule process_event_inv)
  from Cons.prems(2)
  have "(a, rest) = snd ?p \<or> (a, rest) \<in> set (snd (run_events d os (fst ?p) evs))"
    by (simp add: run_events_Cons split: if_splits)
  then show ?case
  proof
    assume "(a, rest) = snd ?p"
    then have "a = fst (snd ?p)" by (metis fst_conv)
    then show ?thesis using process_event_no_axis_action [OF Cons.prems(1), of d os ev n] by simp
  next
    assume "(a, rest) \<in> set (snd (run_events d os (fst ?p) evs))"
    with inv' show ?thesis by (rule Cons.IH)
  qed
qed

lemma struct_unpack_number:
  "struct_unpack bs = Inr ev \<Longrightarrow> 0 \<le> ev_number ev \<and> ev_number ev \<le> 255"
proof (cases bs rule: struct_unpack.cases)
  case (1 b0 b1 b2 b3 b4 b5 b6 b7)
  assume "struct_unpack bs = Inr ev"
  with 1 have "ev_number ev = unpack_B b7" by auto
  then show ?thesis using unpack_B_range [of b7] by simp
qed simp_all

lemma process_event_keys:
  assumes "axes_keys_bytes s" and "0 \<le> ev_number ev \<and> ev_number ev \<le> 255"
  shows "axes_keys_bytes (fst (process_event d os s ev))"
proof -
  obtain s1 a1 where b: "button_branch ev (s, []) = (s1, a1)" by (cases "button_branch ev (s, [])")
  have v: "axes_prev_value s1 = axes_prev_value s"
    using button_branch_axes [of ev s "[]"] b by simp
  show ?thesis
    using assms b v
    by (simp add: process_event_def axis_branch_def Let_def axes_keys_bytes_def)
qed

lemma loop_body_inv:
  assumes "axes_inv s" and "axes_keys_bytes s"
  shows "axes_inv (fst (loop_body d os s evbuf)) \<and> axes_keys_bytes (fst (loop_body d os s evbuf))
       \<and> fst (snd (loop_body d os s evbuf)) \<noteq> on_axis_negative n
       \<and> fst (snd (loop_body d os s evbuf)) \<noteq> on_axis_positive n"
proof (cases "evbuf = []")
  case True
  with assms show ?thesis
    using not_axis_name(3,4) [of n] by (simp add: loop_body_def)
next
  case False
  show ?thesis
  proof (cases "struct_unpack evbuf")
    case (Inl e)
    with False assms show ?thesis
      using not_axis_name(3,4) [of n] by (simp add: loop_body_def)
  next
    case (Inr ev)
    then have l: "loop_body d os s evbuf = process_event d os s ev"
      using False by (simp add: loop_body_def)
    have "axes_inv (fst (process_event d os s ev))" using assms(1) by (rule process_event_inv)
    moreover have "axes_keys_bytes (fst (process_event d os s ev))"
      using assms(2) struct_unpack_number [OF Inr] by (rule process_event_keys)
    moreover note process_event_no_axis_action [OF assms(1), of d os ev n]
    ultimately show ?thesis unfolding l by simp
  qed
qed

lemma main_loop_Cons:
  "main_loop d os s (evbuf # rest) =
     (if snd (snd (snd (loop_body d os s evbuf))) = None
      then (fst (main_loop d os (fst (loop_body d os s evbuf)) rest),
            snd (loop_body d os s evbuf) # fst (snd (main_loop d os (fst (loop_body d os s evbuf)) rest)),
            snd (snd (main_loop d os (fst (loop_body d os s evbuf)) rest)))
      else (fst (loop_body d os s evbuf), [snd (loop_body d os s evbuf)],
            snd (snd (snd (loop_body d os s evbuf)))))"
proof -
  obtain s' a ls r where p: "loop_body d os s evbuf = (s', a, ls, r)"
    by (cases "loop_body d os s evbuf") auto
  show ?thesis by (cases r) (simp_all add: p case_prod_beta)
qed

declare main_loop.simps(2) [simp del]

lemma main_loop_inv:
  "axes_inv s \<Longrightarrow> axes_keys_bytes s \<Longrightarrow> main_loop d os s reads = (s', outs, err)
   \<Longrightarrow> axes_inv s' \<and> axes_keys_bytes s'
       \<and> (\<forall>(a, rest) \<in> set outs. \<forall>n. a \<noteq> on_axis_negative n \<and> a \<noteq> on_axis_positive n)"
proof (induction reads arbitrary: s s' outs err)
  case Nil
  then show ?case by simp
next
  case (Cons evbuf reads)
  let ?l = "loop_body d os s evbuf"
  have step: "\<And>n. axes_inv (fst ?l) \<and> axes_keys_bytes (fst ?l)
        \<and> fst (snd ?l) \<noteq> on_axis_negative n \<and> fst (snd ?l) \<noteq> on_axis_positive n"
    using loop_body_inv [OF Cons.prems(1,2)] by simp
  then have i: "axes_inv (fst ?l)" "axes_keys_bytes (fst ?l)" by simp_all
  have o: "\<forall>n. fst (snd ?l) \<noteq> on_axis_negative n \<and> fst (snd ?l) \<noteq> on_axis_positive n"
    using step by simp
  show ?case
  proof (cases "snd (snd (snd ?l)) = None")
    case True
    obtain s2 outs2 err2 where m: "main_loop d os (fst ?l) reads = (s2, outs2, err2)"
      by (cases "main_loop d os (fst ?l) reads")
    from Cons.prems(3) True m have eq: "s' = s2" "outs = snd ?l # outs2"
      by (simp_all add: main_loop_Cons)
    from Cons.IH [OF i m] show ?thesis using eq o by (simp add: case_prod_beta)
  next
    case False
    with Cons.prems(3) have eq: "s' = fst ?l" "outs = [snd ?l]"
      by (simp_all add: main_loop_Cons)
    show ?thesis using eq i o by (simp add: case_prod_beta)
  qed
qed

lemma axes_keys_init: "axes_keys_bytes init_state"
  by (simp add: axes_keys_bytes_def init_state_def)

lemma stored_value_bounds:
  assumes "axes_inv s" and "axes_keys_bytes s" and "axes_prev_value s k = Some v"
  shows "0 \<le> v \<and> v \<le> 255 / 32767 \<and> - axe_thresh_val \<le> v \<and> v \<le> axe_thresh_val"
proof -
  from assms have v: "v = of_int k / 32767" and k: "0 \<le> k" "k \<le> 255"
    by (auto simp add: axes_inv_def axes_keys_bytes_def)
  have "(0::rat) \<le> of_int k" using k by simp
  moreover have "(of_int k :: rat) \<le> 255" using k by (metis of_int_le_iff of_int_numeral)
  ultimately show ?thesis unfolding v axe_thresh_val_def
    by (simp add: divide_le_eq le_divide_eq)
qed

text \<open>
  C9. Whatever the reads of the device are, no iteration of the program produces an
  action \<open>on_axis_<n>_negative\<close> or \<open>on_axis_<n>_positive\<close>: the value stored
  for an axis is the quotient of its own index by 32767, between 0 and 255 / 32767,
  and so never beyond the threshold 0.8 in either direction. The same holds on any
  sequence of decoded records.
\<close>

theorem never_axis_action:
  assumes "main_loop scriptdir os init_state reads = (s, outs, err)"
  shows "(\<forall>(action_fn, launched, raised) \<in> set outs. \<forall>n.
            action_fn \<noteq> on_axis_negative n \<and> action_fn \<noteq> on_axis_positive n)
       \<and> (\<forall>k v. axes_prev_value s k = Some v \<longrightarrow>
            v = of_int k / 32767 \<and> 0 \<le> v \<and> v \<le> 255 / 32767
            \<and> \<not> v < - axe_thresh_val \<and> \<not> v > axe_thresh_val)
       \<and> (\<forall>evs n. \<forall>(action_fn, launched, raised)
              \<in> set (snd (run_events scriptdir os init_state evs)).
            action_fn \<noteq> on_axis_negative n \<and> action_fn \<noteq> on_axis_positive n)"
proof -
  note m = main_loop_inv [OF axes_inv_init axes_keys_init assms]
  have b: "\<forall>k v. axes_prev_value s k = Some v \<longrightarrow>
            v = of_int k / 32767 \<and> 0 \<le> v \<and> v \<le> 255 / 32767
            \<and> \<not> v < - axe_thresh_val \<and> \<not> v > axe_thresh_val"
  proof (intro allI impI)
    fix k v assume kv: "axes_prev_value s k = Some v"
    have "v = of_int k / 32767" using m kv by (simp add: axes_inv_def)
    moreover note stored_value_bounds [of s k v]
    ultimately show "v = of_int k / 32767 \<and> 0 \<le> v \<and> v \<le> 255 / 32767
            \<and> \<not> v < - axe_thresh_val \<and> \<not> v > axe_thresh_val"
      using m kv by (simp add: not_less)
  qed
  have r: "\<forall>evs n. \<forall>(action_fn, launched, raised)
              \<in> set (snd (run_events scriptdir os init_state evs)).
            action_fn \<noteq> on_axis_negative n \<and> action_fn \<noteq> on_axis_positive n"
    using run_events_no_axis_action [OF axes_inv_init] by blast
  have o: "\<forall>(action_fn, launched, raised) \<in> set outs. \<forall>n.
            action_fn \<noteq> on_axis_negative n \<and> action_fn \<noteq> on_axis_positive n"
    using m by (simp add: case_prod_beta)
  show ?thesis by (rule conjI [OF o conjI [OF b r]])
qed

theorem never_axis_action_witness:
  "main_loop ''/home/pi'' every_file init_state
      [[0, 0, 0, 0, 208, 138, 2, 1], [244, 1, 0, 0, 0, 0, 2, 1]]
     = (\<lparr>button_press_time = Map.empty, axes_prev_time = [1 \<mapsto> 500],
         axes_prev_value = [1 \<mapsto> 1 / 32767]\<rparr>, [([], [], None), ([], [], None)], None)
   \<and> [] \<noteq> on_axis_negative 1 \<and> [] \<noteq> on_axis_positive 1
   \<and> (0 :: rat) \<le> 1 / 32767 \<and> (1 / 32767 :: rat) \<le> 255 / 32767
   \<and> \<not> (1 / 32767 :: rat) < - axe_thresh_val \<and> \<not> (1 / 32767 :: rat) > axe_thresh_val"
proof -
  let ?S = "\<lparr>button_press_time = Map.empty, axes_prev_time = [1 \<mapsto> 500],
         axes_prev_value = [1 \<mapsto> 1 / 32767]\<rparr>"
  have m: "main_loop ''/home/pi'' every_file init_state
      [[0, 0, 0, 0, 208, 138, 2, 1], [244, 1, 0, 0, 0, 0, 2, 1]]
     = (?S, [([], [], None), ([], [], None)], None)"
    by (simp add: main_loop_Cons loop_body_def unpack_I_def unpack_h_def unpack_B_def eval_defs)
  note t = never_axis_action [OF m]
  from conjunct1 [OF t]
  have o: "[] \<noteq> on_axis_negative 1 \<and> [] \<noteq> on_axis_positive 1"
    by simp
  have "axes_prev_value ?S 1 = Some (1 / 32767)" by simp
  with conjunct1 [OF conjunct2 [OF t]]
  have v: "(0 :: rat) \<le> 1 / 32767 \<and> (1 / 32767 :: rat) \<le> 255 / 32767
      \<and> \<not> (1 / 32767 :: rat) < - axe_thresh_val \<and> \<not> (1 / 32767 :: rat) > axe_thresh_val"
    by blast
  show ?thesis using m o v by blast
qed

section \<open>The value field and the axis branch\<close>

lemma axis_action_fields:
  "ev_time e' = ev_time e \<Longrightarrow> ev_number e' = ev_number e
   \<Longrightarrow> axis_action e' s a = axis_action e s a"
  by (simp add: axis_action_def fvalue_def Let_def split: option.split)

lemma axis_branch_fields:
  "ev_time e' = ev_time e \<Longrightarrow> ev_number e' = ev_number e \<Longrightarrow> ev_type e' = ev_type e
   \<Longrightarrow> axis_branch e' sa = axis_branch e sa"
  using axis_action_fields [of e' e]
  by (simp add: axis_branch_def fvalue_def Let_def split: prod.split)

lemma axis_branch_ignores_value:
  "axis_branch (ev\<lparr>ev_value := v\<rparr>) sa = axis_branch ev sa"
  by (rule axis_branch_fields) simp_all

lemma process_event_pure_axis:
  assumes "same_but_pure_axis_value e e'"
  shows "process_event d os s e = process_event d os s e'"
proof (cases "ev_value e = ev_value e'")
  case True
  with assms have "e = e'" by (simp add: same_but_pure_axis_value_def)
  then show ?thesis by simp
next
  case False
  with assms have t: "ev_type e' = ev_type e" and k: "ev_type e AND 1 = 0"
    and n: "ev_number e' = ev_number e" and m: "ev_time e' = ev_time e"
    by (auto simp add: same_but_pure_axis_value_def)
  have k': "ev_type e' AND 1 = 0" using k t by simp
  have b: "button_branch e (s, []) = (s, [])" using k by (rule button_clear_action)
  have b': "button_branch e' (s, []) = (s, [])" using k' by (rule button_clear_action)
  have a: "axis_branch e' (s, []) = axis_branch e (s, [])"
    using m n t by (rule axis_branch_fields)
  show ?thesis by (simp add: process_event_def b b' a t)
qed

lemma run_events_pure_axis:
  "list_all2 same_but_pure_axis_value evs evs' \<Longrightarrow> run_events d os s evs = run_events d os s evs'"
proof (induction evs evs' arbitrary: s rule: list_all2_induct)
  case Nil
  then show ?case by simp
next
  case (Cons e evs e' evs')
  have "process_event d os s e = process_event d os s e'"
    using Cons.hyps(1) by (rule process_event_pure_axis)
  then show ?case using Cons.IH by (simp add: run_events_Cons)
qed

lemma process_event_axes:
  "axes_prev_time (fst (process_event d os s ev)) =
     (if ev_type ev AND 128 = 0 \<and> ev_type ev AND 2 \<noteq> 0
      then (axes_prev_time s)(ev_number ev \<mapsto> ev_time ev) else axes_prev_time s)"
  "axes_prev_value (fst (process_event d os s ev)) =
     (if ev_type ev AND 128 = 0 \<and> ev_type ev AND 2 \<noteq> 0
      then (axes_prev_value s)(ev_number ev \<mapsto> fvalue ev) else axes_prev_value s)"
proof -
  obtain s1 a1 where b: "button_branch ev (s, []) = (s1, a1)" by (cases "button_branch ev (s, [])")
  have t: "axes_prev_time s1 = axes_prev_time s" and v: "axes_prev_value s1 = axes_prev_value s"
    using button_branch_axes [of ev s "[]"] b by simp_all
  show "axes_prev_time (fst (process_event d os s ev)) =
     (if ev_type ev AND 128 = 0 \<and> ev_type ev AND 2 \<noteq> 0
      then (axes_prev_time s)(ev_number ev \<mapsto> ev_time ev) else axes_prev_time s)"
    using b t by (simp add: process_event_def axis_branch_def Let_def)
  show "axes_prev_value (fst (process_event d os s ev)) =
     (if ev_type ev AND 128 = 0 \<and> ev_type ev AND 2 \<noteq> 0
      then (axes_prev_value s)(ev_number ev \<mapsto> fvalue ev) else axes_prev_value s)"
    using b v by (simp add: process_event_def axis_branch_def Let_def)
qed

lemma process_event_same_axes:
  assumes "same_but_axis_value e e'"
    and "axes_prev_time s = axes_prev_time s'" and "axes_prev_value s = axes_prev_value s'"
  shows "axes_prev_time (fst (process_event d os s e)) = axes_prev_time (fst (process_event d os s' e'))"
    and "axes_prev_value (fst (process_event d os s e)) = axes_prev_value (fst (process_event d os s' e'))"
proof -
  from assms(1) have same: "ev_time e = ev_time e'" "ev_type e = ev_type e'"
    "ev_number e = ev_number e'" "fvalue e = fvalue e'"
    by (simp_all add: same_but_axis_value_def fvalue_def)
  show "axes_prev_time (fst (process_event d os s e)) = axes_prev_time (fst (process_event d os s' e'))"
    using same assms(2) by (simp add: process_event_axes)
  show "axes_prev_value (fst (process_event d os s e)) = axes_prev_value (fst (process_event d os s' e'))"
    using same assms(3) by (simp add: process_event_axes)
qed

lemma completed_Cons:
  assumes "completed (snd (run_events d os s (e # evs)))"
  shows "run_events d os s (e # evs) =
           (fst (run_events d os (fst (process_event d os s e)) evs),
            snd (process_event d os s e) # snd (run_events d os (fst (process_event d os s e)) evs))"
    and "completed (snd (run_events d os (fst (process_event d os s e)) evs))"
proof -
  have n: "snd (snd (snd (process_event d os s e))) = None"
  proof (rule ccontr)
    assume "snd (snd (snd (process_event d os s e))) \<noteq> None"
    with assms show False by (simp add: run_events_Cons completed_def)
  qed
  then show "run_events d os s (e # evs) =
           (fst (run_events d os (fst (process_event d os s e)) evs),
            snd (process_event d os s e) # snd (run_events d os (fst (process_event d os s e)) evs))"
    by (simp add: run_events_Cons)
  with assms show "completed (snd (run_events d os (fst (process_event d os s e)) evs))"
    by (simp add: completed_def)
qed

lemma run_events_axes:
  "list_all2 same_but_axis_value evs evs' \<Longrightarrow>
   completed (snd (run_events d os s evs)) \<Longrightarrow> completed (snd (run_events d os s' evs')) \<Longrightarrow>
   axes_prev_time s = axes_prev_time s' \<Longrightarrow> axes_prev_value s = axes_prev_value s' \<Longrightarrow>
   axes_prev_time (fst (run_events d os s evs)) = axes_prev_time (fst (run_events d os s' evs'))
   \<and> axes_prev_value (fst (run_events d os s evs)) = axes_prev_value (fst (run_events d os s' evs'))"
proof (induction evs evs' arbitrary: s s' rule: list_all2_induct)
  case Nil
  then show ?case by simp
next
  case (Cons e evs e' evs')
  note c = completed_Cons [OF Cons.prems(1)] and c' = completed_Cons [OF Cons.prems(2)]
  note a = process_event_same_axes [OF Cons.hyps(1) Cons.prems(3,4), of d os]
  from Cons.IH [OF c(2) c'(2) a] show ?case by (simp add: c(1) c'(1))
qed

text \<open>
  C10. The claim is that two runs whose records differ only in the value field of
  axis-kind records (bit 0x02 set, bit 0x80 clear) give the same stored axis state,
  actions and launches. A record of kind 0x03 is axis-kind and also runs the button
  branch, which reads the value: with value 1 it records a press of button 0 and the
  release that follows emits \<open>on_button_0_pressed\<close>, with value 0 it records nothing
  and the same release emits nothing. Where the test for the script file raises, the
  first run ends at that release and the second goes on to the next axis record, so
  that the stored axis states differ as well.
\<close>

theorem axis_value_counterexample:
  "list_all2 same_but_axis_value
      [\<lparr>ev_time = 0, ev_value = 1, ev_type = 3, ev_number = 0\<rparr>,
       \<lparr>ev_time = 10, ev_value = 0, ev_type = 1, ev_number = 0\<rparr>]
      [\<lparr>ev_time = 0, ev_value = 0, ev_type = 3, ev_number = 0\<rparr>,
       \<lparr>ev_time = 10, ev_value = 0, ev_type = 1, ev_number = 0\<rparr>]
   \<and> snd (run_events ''/home/pi'' every_file init_state
      [\<lparr>ev_time = 0, ev_value = 1, ev_type = 3, ev_number = 0\<rparr>,
       \<lparr>ev_time = 10, ev_value = 0, ev_type = 1, ev_number = 0\<rparr>])
     = [([], [], None),
        (''on_button_0_pressed'', [Popen [''/home/pi/on_button_0_pressed''] True], None)]
   \<and> snd (run_events ''/home/pi'' every_file init_state
      [\<lparr>ev_time = 0, ev_value = 0, ev_type = 3, ev_number = 0\<rparr>,
       \<lparr>ev_time = 10, ev_value = 0, ev_type = 1, ev_number = 0\<rparr>])
     = [([], [], None), ([], [], None)]
   \<and> list_all2 same_but_axis_value
      [\<lparr>ev_time = 0, ev_value = 1, ev_type = 3, ev_number = 0\<rparr>,
       \<lparr>ev_time = 10, ev_value = 0, ev_type = 1, ev_number = 0\<rparr>,
       \<lparr>ev_time = 20, ev_value = 0, ev_type = 2, ev_number = 5\<rparr>]
      [\<lparr>ev_time = 0, ev_value = 0, ev_type = 3, ev_number = 0\<rparr>,
       \<lparr>ev_time = 10, ev_value = 0, ev_type = 1, ev_number = 0\<rparr>,
       \<lparr>ev_time = 20, ev_value = 0, ev_type = 2, ev_number = 5\<rparr>]
   \<and> axes_prev_time (fst (run_events ''/home/pi'' no_access init_state
      [\<lparr>ev_time = 0, ev_value = 1, ev_type = 3, ev_number = 0\<rparr>,
       \<lparr>ev_time = 10, ev_value = 0, ev_type = 1, ev_number = 0\<rparr>,
       \<lparr>ev_time = 20, ev_value = 0, ev_type = 2, ev_number = 5\<rparr>])) 5 = None
   \<and> axes_prev_time (fst (run_events ''/home/pi'' no_access init_state
      [\<lparr>ev_time = 0, ev_value = 0, ev_type = 3, ev_number = 0\<rparr>,
       \<lparr>ev_time = 10, ev_value = 0, ev_type = 1, ev_number = 0\<rparr>,
       \<lparr>ev_time = 20, ev_value = 0, ev_type = 2, ev_number = 5\<rparr>])) 5 = Some 20"
  by (simp add: eval_defs same_but_axis_value_def axis_kind_def)

text \<open>
  C10, amended. The axis branch does not read the value field. For two records that
  differ only in the value field of an axis-kind record, an iteration leaves the same
  axis state behind; so for two runs from the same state whose records differ only in
  this way, the stored axis state is the same as long as no iteration of either run
  raises. When none of the records that differ carries the button bit 0x01 as well,
  the whole state, the action, the launches and the error of every iteration are the
  same.
\<close>

theorem axis_branch_value_independent:
  "axis_branch (ev\<lparr>ev_value := v\<rparr>) sa = axis_branch ev sa
   \<and> (same_but_axis_value e e' \<longrightarrow>
        axes_prev_time (fst (process_event scriptdir os s e))
          = axes_prev_time (fst (process_event scriptdir os s e'))
        \<and> axes_prev_value (fst (process_event scriptdir os s e))
          = axes_prev_value (fst (process_event scriptdir os s e')))
   \<and> (list_all2 same_but_axis_value evs evs'
        \<and> completed (snd (run_events scriptdir os s evs))
        \<and> completed (snd (run_events scriptdir os s evs')) \<longrightarrow>
        axes_prev_time (fst (run_events scriptdir os s evs))
          = axes_prev_time (fst (run_events scriptdir os s evs'))
        \<and> axes_prev_value (fst (run_events scriptdir os s evs))
          = axes_prev_value (fst (run_events scriptdir os s evs')))
   \<and> (list_all2 same_but_pure_axis_value evs evs' \<longrightarrow>
        run_events scriptdir os s evs = run_events scriptdir os s evs')"
  using axis_branch_ignores_value [where ev = ev and v = v and sa = sa]
    process_event_same_axes [where e = e and e' = e' and s = s and s' = s
      and d = scriptdir and os = os]
    run_events_axes [where evs = evs and evs' = evs' and s = s and s' = s
      and d = scriptdir and os = os]
    run_events_pure_axis [where evs = evs and evs' = evs' and d = scriptdir
      and os = os and s = s]
  by simp

theorem axis_branch_value_independent_witness:
  "list_all2 same_but_axis_value
      [\<lparr>ev_time = 0, ev_value = - 30000, ev_type = 2, ev_number = 1\<rparr>,
       \<lparr>ev_time = 500, ev_value = 0, ev_type = 2, ev_number = 1\<rparr>]
      [\<lparr>ev_time = 0, ev_value = - 20000, ev_type = 2, ev_number = 1\<rparr>,
       \<lparr>ev_time = 500, ev_value = 0, ev_type = 2, ev_number = 1\<rparr>]
   \<and> list_all2 same_but_pure_axis_value
      [\<lparr>ev_time = 0, ev_value = - 30000, ev_type = 2, ev_number = 1\<rparr>,
       \<lparr>ev_time = 500, ev_value = 0, ev_type = 2, ev_number = 1\<rparr>]
      [\<lparr>ev_time = 0, ev_value = - 20000, ev_type = 2, ev_number = 1\<rparr>,
       \<lparr>ev_time = 500, ev_value = 0, ev_type = 2, ev_number = 1\<rparr>]
   \<and> completed (snd (run_events ''/home/pi'' every_file init_state
      [\<lparr>ev_time = 0, ev_value = - 30000, ev_type = 2, ev_number = 1\<rparr>,
       \<lparr>ev_time = 500, ev_value = 0, ev_type = 2, ev_number = 1\<rparr>]))
   \<and> completed (snd (run_events ''/home/pi'' every_file init_state
      [\<lparr>ev_time = 0, ev_value = - 20000, ev_type = 2, ev_number = 1\<rparr>,
       \<lparr>ev_time = 500, ev_value = 0, ev_type = 2, ev_number = 1\<rparr>]))
   \<and> run_events ''/home/pi'' every_file init_state
      [\<lparr>ev_time = 0, ev_value = - 30000, ev_type = 2, ev_number = 1\<rparr>,
       \<lparr>ev_time = 500, ev_value = 0, ev_type = 2, ev_number = 1\<rparr>]
     = run_events ''/home/pi'' every_file init_state
      [\<lparr>ev_time = 0, ev_value = - 20000, ev_type = 2, ev_number = 1\<rparr>,
       \<lparr>ev_time = 500, ev_value = 0, ev_type = 2, ev_number = 1\<rparr>]
   \<and> axes_prev_value (fst (run_events ''/home/pi'' every_file init_state
      [\<lparr>ev_time = 0, ev_value = - 30000, ev_type = 2, ev_number = 1\<rparr>,
       \<lparr>ev_time = 500, ev_value = 0, ev_type = 2, ev_number = 1\<rparr>]))
     = axes_prev_value (fst (run_events ''/home/pi'' every_file init_state
      [\<lparr>ev_time = 0, ev_value = - 20000, ev_type = 2, ev_number = 1\<rparr>,
       \<lparr>ev_time = 500, ev_value = 0, ev_type = 2, ev_number = 1\<rparr>]))"
proof -
  let ?a = "[\<lparr>ev_time = 0, ev_value = - 30000, ev_type = 2, ev_number = 1\<rparr>,
       \<lparr>ev_time = 500, ev_value = 0, ev_type = 2, ev_number = 1\<rparr>]"
  let ?b = "[\<lparr>ev_time = 0, ev_value = - 20000, ev_type = 2, ev_number = 1\<rparr>,
       \<lparr>ev_time = 500, ev_value = 0, ev_type = 2, ev_number = 1\<rparr>]"
  have r1: "list_all2 same_but_axis_value ?a ?b"
    by (simp add: same_but_axis_value_def axis_kind_def)
  have r2: "list_all2 same_but_pure_axis_value ?a ?b"
    by (simp add: same_but_pure_axis_value_def axis_kind_def)
  have c1: "completed (snd (run_events ''/home/pi'' every_file init_state ?a))"
    by (simp add: eval_defs completed_def)
  have c2: "completed (snd (run_events ''/home/pi'' every_file init_state ?b))"
    by (simp add: eval_defs completed_def)
  note t = axis_branch_value_independent [where evs = ?a and evs' = ?b
        and scriptdir = "''/home/pi''" and os = every_file and s = init_state]
  have e: "run_events ''/home/pi'' every_file init_state ?a
      = run_events ''/home/pi'' every_file init_state ?b"
    using t r2 by blast
  have v: "axes_prev_value (fst (run_events ''/home/pi'' every_file init_state ?a))
      = axes_prev_value (fst (run_events ''/home/pi'' every_file init_state ?b))"
    using t r1 c1 c2 by blast
  from r1 r2 c1 c2 e v show ?thesis by blast
qed

end
